theory Spec2Isabelle
  imports Main "HOL-Library.AList"
begin

section \<open>Warehouse and order fulfilment (src/src/warehouse/warehouse.route.ts)\<close>

text \<open>
  The helper functions \<^verbatim>\<open>placeBooksOnShelf\<close>, \<^verbatim>\<open>placeOrder\<close> and \<^verbatim>\<open>fulfilOrder\<close> of
  \<^verbatim>\<open>warehouse.route.ts\<close> are embedded as functions that take the store \<^verbatim>\<open>data\<close> and return
  the outcome together with the store as the call leaves it, also when the call throws: a
  thrown \<^verbatim>\<open>Error\<close> is \<open>Inl\<close> of an error kind, and the store paired with it is the store
  at the moment of the throw.

  Conventions of the embedding:
  \<^item> a TypeScript \<^verbatim>\<open>number\<close> that counts books is an \<open>int\<close> (fractions, NaN and the
    infinities are left out);
  \<^item> a \<^verbatim>\<open>Record<BookID, number>\<close> is a plain object: its own properties are an
    association list in insertion order, and a property it does not own is looked up in
    \<^verbatim>\<open>Object.prototype\<close>, as \<^verbatim>\<open>record[key]\<close> and \<^verbatim>\<open>key in record\<close> do in JavaScript;
    \<^verbatim>\<open>Object.keys\<close> is \<open>map fst\<close>;
  \<^item> every \<^verbatim>\<open>await\<close> completes before the next statement runs and the store serves calls
    in the order they are issued (one request at a time).
\<close>

subsection \<open>Data\<close>

type_synonym BookID = string
type_synonym ShelfId = string
type_synonym OrderId = string

text \<open>
  The values a record of this program can own: the numbers of its declared type and, where
  \<^verbatim>\<open>+\<close> met a value that is not a number, the string the concatenation gave.
\<close>

datatype primitive = Num int | Str string

text \<open>
  What reading a property gives: \<^verbatim>\<open>undefined\<close>, an own value, or an object or function
  inherited from \<^verbatim>\<open>Object.prototype\<close>, kept as the string it converts to under \<^verbatim>\<open>+\<close>.
\<close>

datatype jsvalue = Undefined | Prim primitive | Obj string

text \<open>\<^verbatim>\<open>Record<BookID, number>\<close>: the books of an order, or the running tally of a fulfilment.\<close>

type_synonym BookCounts = "(BookID \<times> primitive) list"

text \<open>\<^verbatim>\<open>interface FulfilBookItem\<close>.\<close>

record FulfilBookItem =
  book :: BookID
  shelf :: ShelfId
  numberOfBooks :: int

text \<open>
  The thrown errors, named by the kinds of the specification. In the source they are
  \<^verbatim>\<open>Error\<close> objects told apart by their message:
  \<open>ValidationError\<close> is "Can't place less than 0 books on a shelf",
  \<open>OrderNotFound\<close> is "no such order",
  \<open>UnknownBookInOrder\<close> is "one of the books is not in the order",
  \<open>QuantityMismatch\<close> is "incorrect number of books",
  \<open>InsufficientStock\<close> is "not enough copies on given shelves".
\<close>

datatype error =
  ValidationError
| OrderNotFound
| UnknownBookInOrder
| QuantityMismatch
| InsufficientStock

subsection \<open>Plain objects used as dictionaries\<close>

text \<open>
  The properties every plain object inherits from \<^verbatim>\<open>Object.prototype\<close>, each with the
  string its value converts to under \<^verbatim>\<open>+\<close>: the built-in functions print as native
  code, and \<^verbatim>\<open>__proto__\<close> reads as \<^verbatim>\<open>Object.prototype\<close> itself.
\<close>

definition objectPrototype :: "(string \<times> string) list" where
  "objectPrototype =
     [(''constructor'', ''function Object() { [native code] }''),
      (''__defineGetter__'', ''function __defineGetter__() { [native code] }''),
      (''__defineSetter__'', ''function __defineSetter__() { [native code] }''),
      (''hasOwnProperty'', ''function hasOwnProperty() { [native code] }''),
      (''__lookupGetter__'', ''function __lookupGetter__() { [native code] }''),
      (''__lookupSetter__'', ''function __lookupSetter__() { [native code] }''),
      (''isPrototypeOf'', ''function isPrototypeOf() { [native code] }''),
      (''propertyIsEnumerable'', ''function propertyIsEnumerable() { [native code] }''),
      (''toString'', ''function toString() { [native code] }''),
      (''valueOf'', ''function valueOf() { [native code] }''),
      (''__proto__'', ''[object Object]''),
      (''toLocaleString'', ''function toLocaleString() { [native code] }'')]"

text \<open>\<^verbatim>\<open>record[key]\<close>: the own property, else the inherited one, else \<^verbatim>\<open>undefined\<close>.\<close>

definition getProp :: "BookCounts \<Rightarrow> string \<Rightarrow> jsvalue" where
  "getProp r k =
     (case map_of r k of
        Some v \<Rightarrow> Prim v
      | None \<Rightarrow> (case map_of objectPrototype k of Some t \<Rightarrow> Obj t | None \<Rightarrow> Undefined))"

text \<open>\<^verbatim>\<open>key in record\<close>: true of own and of inherited properties.\<close>

definition hasProp :: "BookCounts \<Rightarrow> string \<Rightarrow> bool" where
  "hasProp r k = (getProp r k \<noteq> Undefined)"

text \<open>
  \<^verbatim>\<open>record[key] = v\<close> for a number or string \<open>v\<close>: the own property is replaced in place
  or appended. Assigning to \<^verbatim>\<open>__proto__\<close> on an object that does not own it runs the
  inherited setter, which ignores a value that is not an object.
\<close>

definition setProp :: "BookCounts \<Rightarrow> string \<Rightarrow> primitive \<Rightarrow> BookCounts" where
  "setProp r k v =
     (if k = ''__proto__'' \<and> map_of r k = None then r else AList.update k v r)"

text \<open>The decimal digits of a number, as \<^verbatim>\<open>+\<close> writes an integer into a string.\<close>

definition digitChar :: "nat \<Rightarrow> char" where
  "digitChar n = ''0123456789'' ! n"

fun showNat :: "nat \<Rightarrow> string" where
  "showNat n = (if n < 10 then [digitChar n] else showNat (n div 10) @ [digitChar (n mod 10)])"

definition showInt :: "int \<Rightarrow> string" where
  "showInt i = (if i < 0 then CHR ''-'' # showNat (nat (- i)) else showNat (nat i))"

text \<open>
  \<^verbatim>\<open>n + (x ?? 0)\<close> for a number \<open>n\<close>: \<^verbatim>\<open>undefined\<close> counts as 0, a number is added, and
  anything else is converted to a string and appended to the digits of \<open>n\<close>.
\<close>

definition plusOrZero :: "int \<Rightarrow> jsvalue \<Rightarrow> primitive" where
  "plusOrZero n x =
     (case x of
        Undefined \<Rightarrow> Num (n + 0)
      | Prim (Num c) \<Rightarrow> Num (n + c)
      | Prim (Str t) \<Rightarrow> Str (showInt n @ t)
      | Obj t \<Rightarrow> Str (showInt n @ t))"

subsection \<open>The store behind \<^verbatim>\<open>WarehouseData\<close>\<close>

text \<open>
  The calls a helper can make on the store, recorded in the order they are issued.
\<close>

datatype store_call =
  GetCopiesOnShelfCall BookID ShelfId
| PlaceBookOnShelfCall BookID ShelfId int
| PlaceOrderCall BookCounts
| GetOrderCall OrderId
| RemoveOrderCall OrderId

text \<open>
  Modelled from the spec: the type \<^verbatim>\<open>WarehouseData\<close> and its implementation
  (\<^verbatim>\<open>./warehouse_data\<close>) are not among the sources. The store is the Shelf Inventory Store
  (one count per book and shelf) and the Order Store (one record per order identifier) of
  the specification, sections 3 and 4.1; \<open>calls\<close> is the history of the calls made on it.
\<close>

record WarehouseData =
  stock :: "(BookID \<times> ShelfId) \<rightharpoonup> int"
  orders :: "OrderId \<rightharpoonup> BookCounts"
  calls :: "store_call list"

text \<open>Appending a call to the history; stock and orders are untouched.\<close>

definition logCall :: "store_call \<Rightarrow> WarehouseData \<Rightarrow> WarehouseData" where
  "logCall c data = data\<lparr>calls := calls data @ [c]\<rparr>"

text \<open>
  Modelled from the spec: the count the Shelf Inventory Store holds for a book on a shelf,
  0 when there is no record (the value \<^verbatim>\<open>data.getCopiesOnShelf\<close> returns).
\<close>

definition copiesOnShelf :: "WarehouseData \<Rightarrow> BookID \<Rightarrow> ShelfId \<Rightarrow> int" where
  "copiesOnShelf data b s = (case stock data (b, s) of None \<Rightarrow> 0 | Some c \<Rightarrow> c)"

text \<open>
  Modelled from the spec: \<^verbatim>\<open>data.getCopiesOnShelf(book, shelf)\<close> "returns 0 if no record
  exists"; it changes neither store.
\<close>

definition getCopiesOnShelf ::
  "WarehouseData \<Rightarrow> BookID \<Rightarrow> ShelfId \<Rightarrow> int \<times> WarehouseData" where
  "getCopiesOnShelf data b s = (copiesOnShelf data b s, logCall (GetCopiesOnShelfCall b s) data)"

text \<open>
  Modelled from the spec: \<^verbatim>\<open>data.placeBookOnShelf(book, shelf, newCount)\<close> "sets the
  absolute count for book+shelf to newCount" and "fails with ValidationError if
  newCount < 0 is passed", writing nothing then.
\<close>

definition placeBookOnShelf ::
  "WarehouseData \<Rightarrow> BookID \<Rightarrow> ShelfId \<Rightarrow> int \<Rightarrow> (error + unit) \<times> WarehouseData" where
  "placeBookOnShelf data b s newCount =
     (if newCount < 0
      then (Inl ValidationError, logCall (PlaceBookOnShelfCall b s newCount) data)
      else (Inr (),
            logCall (PlaceBookOnShelfCall b s newCount)
              (data\<lparr>stock := (stock data)((b, s) \<mapsto> newCount)\<rparr>)))"

text \<open>
  Modelled from the spec: \<^verbatim>\<open>data.getOrder(orderId)\<close> is a point lookup in the Order Store;
  the source compares its result with \<^verbatim>\<open>false\<close> for a missing order, here \<open>None\<close>.
\<close>

definition getOrder :: "WarehouseData \<Rightarrow> OrderId \<Rightarrow> BookCounts option \<times> WarehouseData" where
  "getOrder data orderId = (orders data orderId, logCall (GetOrderCall orderId) data)"

text \<open>Modelled from the spec: \<^verbatim>\<open>data.removeOrder(orderId)\<close> deletes the order record.\<close>

definition removeOrder :: "WarehouseData \<Rightarrow> OrderId \<Rightarrow> WarehouseData" where
  "removeOrder data orderId =
     logCall (RemoveOrderCall orderId) (data\<lparr>orders := (orders data)(orderId := None)\<rparr>)"

text \<open>
  Modelled from the spec: \<^verbatim>\<open>data.placeOrder(order)\<close> "generates a fresh unique order
  identifier, stores the (orderId, tally) pair, returns the identifier". The generator is
  not among the sources: the identifier it produces is the parameter \<open>newId\<close>.
\<close>

definition storePlaceOrder ::
  "WarehouseData \<Rightarrow> OrderId \<Rightarrow> BookCounts \<Rightarrow> OrderId \<times> WarehouseData" where
  "storePlaceOrder data newId order =
     (newId, logCall (PlaceOrderCall order) (data\<lparr>orders := (orders data)(newId \<mapsto> order)\<rparr>))"

subsection \<open>\<^verbatim>\<open>placeBooksOnShelf\<close> (lines 54 to 65)\<close>

text \<open>
  The \<^verbatim>\<open>?? 0\<close> after the read is the identity here, the store returning a number.
\<close>

definition placeBooksOnShelf ::
  "WarehouseData \<Rightarrow> BookID \<Rightarrow> int \<Rightarrow> ShelfId \<Rightarrow> (error + unit) \<times> WarehouseData" where
  "placeBooksOnShelf data bookId n shelfId =
     (if n < 0 then (Inl ValidationError, data)
      else (case getCopiesOnShelf data bookId shelfId of
              (current, data1) \<Rightarrow> placeBookOnShelf data1 bookId shelfId (current + n)))"

subsection \<open>\<^verbatim>\<open>placeOrder\<close> (lines 84 to 92)\<close>

text \<open>The \<^verbatim>\<open>for\<close> loop over \<^verbatim>\<open>books\<close>: \<^verbatim>\<open>order[book] = 1 + (order[book] ?? 0)\<close>.\<close>

fun tallyBooks :: "BookID list \<Rightarrow> BookCounts \<Rightarrow> BookCounts" where
  "tallyBooks [] order = order"
| "tallyBooks (b # bs) order =
     tallyBooks bs (setProp order b (plusOrZero 1 (getProp order b)))"

definition placeOrder :: "WarehouseData \<Rightarrow> OrderId \<Rightarrow> BookID list \<Rightarrow> OrderId \<times> WarehouseData" where
  "placeOrder data newId books = storePlaceOrder data newId (tallyBooks books [])"

subsection \<open>\<^verbatim>\<open>fulfilOrder\<close> (lines 100 to 141)\<close>

text \<open>
  Lines 110 to 116: the loop over the lines that checks \<^verbatim>\<open>book in order\<close> and adds the
  line's quantity to \<^verbatim>\<open>removedCount[book]\<close>.
\<close>

fun countRemoved :: "BookCounts \<Rightarrow> FulfilBookItem list \<Rightarrow> BookCounts \<Rightarrow> error + BookCounts" where
  "countRemoved order [] removedCount = Inr removedCount"
| "countRemoved order (l # ls) removedCount =
     (if \<not> hasProp order (book l) then Inl UnknownBookInOrder
      else countRemoved order ls
             (setProp removedCount (book l)
                (plusOrZero (numberOfBooks l) (getProp removedCount (book l)))))"

text \<open>
  Lines 118 to 122: the loop over \<^verbatim>\<open>Object.keys(order)\<close>, the own properties of the order.
  \<^verbatim>\<open>removedCount[book]\<close> is \<^verbatim>\<open>undefined\<close> or an inherited value for a book no line names,
  and \<^verbatim>\<open>!==\<close> tells apart values of different kinds, numbers by value and strings by
  content.
\<close>

fun checkCounts :: "BookID list \<Rightarrow> BookCounts \<Rightarrow> BookCounts \<Rightarrow> error + unit" where
  "checkCounts [] removedCount order = Inr ()"
| "checkCounts (b # bs) removedCount order =
     (if getProp removedCount b \<noteq> getProp order b then Inl QuantityMismatch
      else checkCounts bs removedCount order)"

text \<open>
  Lines 124 to 133: \<^verbatim>\<open>Promise.all\<close> over the lines. Every callback is started, so the store
  is read once for every line, in order; the result is rejected when any line would leave
  its shelf below zero, and is otherwise the list of lines with \<^verbatim>\<open>numberOfBooks\<close> replaced
  by the new count of the shelf.
\<close>

fun processFulfilment ::
  "WarehouseData \<Rightarrow> FulfilBookItem list \<Rightarrow> (error + FulfilBookItem list) \<times> WarehouseData" where
  "processFulfilment data [] = (Inr [], data)"
| "processFulfilment data (l # ls) =
     (case getCopiesOnShelf data (book l) (shelf l) of
        (currentCopiesOnShelf, data1) \<Rightarrow>
          (case processFulfilment data1 ls of
             (rest, data2) \<Rightarrow>
               (if currentCopiesOnShelf - numberOfBooks l < 0 then (Inl InsufficientStock, data2)
                else (case rest of
                        Inl e \<Rightarrow> (Inl e, data2)
                      | Inr ps \<Rightarrow>
                          (Inr (l\<lparr>numberOfBooks := currentCopiesOnShelf - numberOfBooks l\<rparr> # ps),
                           data2)))))"

text \<open>
  Lines 136 to 140: \<^verbatim>\<open>Promise.all\<close> over the processed lines. Every write is issued, in
  order; the result is rejected when a write is.
\<close>

fun commitFulfilment ::
  "WarehouseData \<Rightarrow> FulfilBookItem list \<Rightarrow> (error + unit) \<times> WarehouseData" where
  "commitFulfilment data [] = (Inr (), data)"
| "commitFulfilment data (p # ps) =
     (case placeBookOnShelf data (book p) (shelf p) (numberOfBooks p) of
        (r, data1) \<Rightarrow>
          (case commitFulfilment data1 ps of
             (rest, data2) \<Rightarrow> (case r of Inl e \<Rightarrow> (Inl e, data2) | Inr u \<Rightarrow> (rest, data2))))"

definition fulfilOrder ::
  "WarehouseData \<Rightarrow> OrderId \<Rightarrow> FulfilBookItem list \<Rightarrow> (error + unit) \<times> WarehouseData" where
  "fulfilOrder data orderId booksFulfilled =
     (case getOrder data orderId of
        (None, data1) \<Rightarrow> (Inl OrderNotFound, data1)
      | (Some order, data1) \<Rightarrow>
          (case countRemoved order booksFulfilled [] of
             Inl e \<Rightarrow> (Inl e, data1)
           | Inr removedCount \<Rightarrow>
               (case checkCounts (map fst order) removedCount order of
                  Inl e \<Rightarrow> (Inl e, data1)
                | Inr u \<Rightarrow>
                    (case processFulfilment data1 booksFulfilled of
                       (Inl e, data2) \<Rightarrow> (Inl e, data2)
                     | (Inr processedFulfilment, data2) \<Rightarrow>
                         commitFulfilment (removeOrder data2 orderId) processedFulfilment))))"

subsection \<open>Sequences of operations\<close>

text \<open>
  The two operations that change shelf stock, as requests served one after the other:
  a request that fails leaves the store as the failed call left it and the next request
  runs on that store.
\<close>

datatype operation =
  PlaceBooksOnShelf BookID int ShelfId
| FulfilOrder OrderId "FulfilBookItem list"

fun applyOperation :: "WarehouseData \<Rightarrow> operation \<Rightarrow> (error + unit) \<times> WarehouseData" where
  "applyOperation data (PlaceBooksOnShelf b n s) = placeBooksOnShelf data b n s"
| "applyOperation data (FulfilOrder orderId ls) = fulfilOrder data orderId ls"

fun runOperations :: "WarehouseData \<Rightarrow> operation list \<Rightarrow> WarehouseData" where
  "runOperations data [] = data"
| "runOperations data (operation # rest) = runOperations (snd (applyOperation data operation)) rest"

subsection \<open>Notions used to state the properties\<close>

text \<open>The sum of the quantities of the lines that name book \<open>b\<close>.\<close>

definition lineSum :: "FulfilBookItem list \<Rightarrow> BookID \<Rightarrow> int" where
  "lineSum ls b = sum_list (map numberOfBooks (filter (\<lambda>l. book l = b) ls))"

text \<open>Every line names a book of the order (a property the order owns).\<close>

definition linesInOrder :: "BookCounts \<Rightarrow> FulfilBookItem list \<Rightarrow> bool" where
  "linesInOrder order ls = list_all (\<lambda>l. map_of order (book l) \<noteq> None) ls"

text \<open>For every book of the order, the lines' quantities sum to the required quantity.\<close>

definition quantitiesMatch :: "BookCounts \<Rightarrow> FulfilBookItem list \<Rightarrow> bool" where
  "quantitiesMatch order ls =
     list_all (\<lambda>b. map_of order b = Some (Num (lineSum ls b))) (map fst order)"

text \<open>
  What lines 118 to 122 test when every line names a book of the order and no line
  names an inherited property: as \<open>quantitiesMatch\<close>, and every book of the order is named
  by a line.
\<close>

definition countedExactly :: "BookCounts \<Rightarrow> FulfilBookItem list \<Rightarrow> bool" where
  "countedExactly order ls =
     list_all (\<lambda>b. b \<in> book ` set ls \<and> map_of order b = Some (Num (lineSum ls b)))
       (map fst order)"

text \<open>Every line asks for no more than its shelf holds.\<close>

definition stockSufficient :: "WarehouseData \<Rightarrow> FulfilBookItem list \<Rightarrow> bool" where
  "stockSufficient data ls =
     list_all (\<lambda>l. numberOfBooks l \<le> copiesOnShelf data (book l) (shelf l)) ls"

text \<open>The invariant of an order in the data model: every required quantity is at least 1.\<close>

fun atLeastOne :: "primitive \<Rightarrow> bool" where
  "atLeastOne (Num q) = (1 \<le> q)"
| "atLeastOne (Str t) = False"

definition quantitiesPositive :: "BookCounts \<Rightarrow> bool" where
  "quantitiesPositive order = list_all (\<lambda>bq. atLeastOne (snd bq)) order"

text \<open>No name of the list is a property inherited from \<^verbatim>\<open>Object.prototype\<close>.\<close>

definition notInherited :: "string list \<Rightarrow> bool" where
  "notInherited ks = list_all (\<lambda>k. map_of objectPrototype k = None) ks"

text \<open>The invariant of the shelf stock in the data model: no count is negative.\<close>

definition stockNonNegative :: "WarehouseData \<Rightarrow> bool" where
  "stockNonNegative data = (\<forall>b s. 0 \<le> copiesOnShelf data b s)"

text \<open>A line with the count its shelf is set to; the store calls made for a line.\<close>

definition newLine :: "WarehouseData \<Rightarrow> FulfilBookItem \<Rightarrow> FulfilBookItem" where
  "newLine data l = l\<lparr>numberOfBooks := copiesOnShelf data (book l) (shelf l) - numberOfBooks l\<rparr>"

definition readCall :: "FulfilBookItem \<Rightarrow> store_call" where
  "readCall l = GetCopiesOnShelfCall (book l) (shelf l)"

definition writeCall :: "FulfilBookItem \<Rightarrow> store_call" where
  "writeCall p = PlaceBookOnShelfCall (book p) (shelf p) (numberOfBooks p)"

text \<open>The stock after the absolute writes of the processed lines, applied in order.\<close>

definition writeStock ::
  "((BookID \<times> ShelfId) \<rightharpoonup> int) \<Rightarrow> FulfilBookItem list \<Rightarrow> ((BookID \<times> ShelfId) \<rightharpoonup> int)" where
  "writeStock m ps = foldl (\<lambda>m p. m((book p, shelf p) \<mapsto> numberOfBooks p)) m ps"

text \<open>The store a successful fulfilment leaves.\<close>

definition fulfilledData :: "WarehouseData \<Rightarrow> OrderId \<Rightarrow> FulfilBookItem list \<Rightarrow> WarehouseData" where
  "fulfilledData data orderId ls =
     data\<lparr>stock := writeStock (stock data) (map (newLine data) ls),
          orders := (orders data)(orderId := None),
          calls := calls data @ GetOrderCall orderId # map readCall ls
                   @ RemoveOrderCall orderId # map writeCall (map (newLine data) ls)\<rparr>"

text \<open>The store calls that change nothing.\<close>

fun isReadCall :: "store_call \<Rightarrow> bool" where
  "isReadCall (GetCopiesOnShelfCall b s) = True"
| "isReadCall (GetOrderCall orderId) = True"
| "isReadCall (PlaceBookOnShelfCall b s n) = False"
| "isReadCall (PlaceOrderCall order) = False"
| "isReadCall (RemoveOrderCall orderId) = False"

text \<open>The number a record owns under a name, 0 when it owns none there.\<close>

definition countOf :: "BookCounts \<Rightarrow> BookID \<Rightarrow> int" where
  "countOf r b = (case map_of r b of Some (Num c) \<Rightarrow> c | _ \<Rightarrow> 0)"

subsection \<open>Example stores\<close>

definition fulfilLine :: "BookID \<Rightarrow> ShelfId \<Rightarrow> int \<Rightarrow> FulfilBookItem" where
  "fulfilLine b s n = \<lparr>book = b, shelf = s, numberOfBooks = n\<rparr>"

definition emptyWarehouse :: WarehouseData where
  "emptyWarehouse = \<lparr>stock = Map.empty, orders = Map.empty, calls = []\<rparr>"

text \<open>Scenario C: an order for two X and one Y, and shelf A holding exactly those.\<close>

definition scenarioC :: WarehouseData where
  "scenarioC =
     \<lparr>stock = [(''X'', ''A'') \<mapsto> 2, (''Y'', ''A'') \<mapsto> 1],
      orders = [''order1'' \<mapsto> [(''X'', Num 2), (''Y'', Num 1)]],
      calls = []\<rparr>"


text \<open>An order for 2k copies of X while shelf A holds k copies.\<close>

definition halfStocked :: "int \<Rightarrow> WarehouseData" where
  "halfStocked k =
     \<lparr>stock = [(''X'', ''A'') \<mapsto> k], orders = [''order1'' \<mapsto> [(''X'', Num (2 * k))]], calls = []\<rparr>"

text \<open>An order for one X while shelf A holds two copies and shelf B none.\<close>

definition singleOrder :: WarehouseData where
  "singleOrder =
     \<lparr>stock = [(''X'', ''A'') \<mapsto> 2], orders = [''order1'' \<mapsto> [(''X'', Num 1)]], calls = []\<rparr>"

text \<open>An order that requires X zero times, which \<^verbatim>\<open>placeOrder\<close> never stores.\<close>

definition zeroQuantityOrder :: WarehouseData where
  "zeroQuantityOrder =
     \<lparr>stock = Map.empty, orders = [''order1'' \<mapsto> [(''X'', Num 0)]], calls = []\<rparr>"

section \<open>The store and the loops\<close>

lemma logCall_simps [simp]:
  "stock (logCall c data) = stock data"
  "orders (logCall c data) = orders data"
  "calls (logCall c data) = calls data @ [c]"
  by (simp_all add: logCall_def)

lemma copiesOnShelf_logCall [simp]: "copiesOnShelf (logCall c data) b s = copiesOnShelf data b s"
  by (simp add: copiesOnShelf_def)

lemma copiesOnShelf_calls_update [simp]:
  "copiesOnShelf (data\<lparr>calls := cs\<rparr>) b s = copiesOnShelf data b s"
  by (simp add: copiesOnShelf_def)

lemma stockSufficient_calls_update [simp]:
  "stockSufficient (data\<lparr>calls := cs\<rparr>) ls = stockSufficient data ls"
  by (simp add: stockSufficient_def)

lemma newLine_calls_update [simp]: "newLine (data\<lparr>calls := cs\<rparr>) = newLine data"
  by (rule ext) (simp add: newLine_def)

lemma lineSum_Nil [simp]: "lineSum [] b = 0"
  by (simp add: lineSum_def)

lemma lineSum_Cons [simp]:
  "lineSum (l # ls) b = (if book l = b then numberOfBooks l else 0) + lineSum ls b"
  by (simp add: lineSum_def)

lemma lineSum_unnamed: "b \<notin> book ` set ls \<Longrightarrow> lineSum ls b = 0"
  by (induction ls) auto

lemma processFulfilment_eq:
  "processFulfilment data ls =
     (if stockSufficient data ls then Inr (map (newLine data) ls) else Inl InsufficientStock,
      data\<lparr>calls := calls data @ map readCall ls\<rparr>)"
proof (induction ls arbitrary: data)
  case Nil
  show ?case by (simp add: stockSufficient_def)
next
  case (Cons l ls)
  have sw: "stockSufficient (logCall c data) ls = stockSufficient data ls" for c
    by (simp add: stockSufficient_def)
  have nl: "map (newLine (logCall c data)) ls = map (newLine data) ls" for c
    by (simp add: newLine_def)
  have rec: "(logCall c data)\<lparr>calls := calls (logCall c data) @ xs\<rparr> = data\<lparr>calls := calls data @ c # xs\<rparr>" for c xs
    by (simp add: logCall_def)
  show ?case
    by (simp add: Cons.IH getCopiesOnShelf_def sw nl rec readCall_def newLine_def stockSufficient_def)
qed

lemma commitFulfilment_eq:
  "list_all (\<lambda>p. 0 \<le> numberOfBooks p) ps \<Longrightarrow>
   commitFulfilment data ps =
     (Inr (), data\<lparr>stock := writeStock (stock data) ps, calls := calls data @ map writeCall ps\<rparr>)"
proof (induction ps arbitrary: data)
  case Nil
  show ?case by (simp add: writeStock_def)
next
  case (Cons p ps)
  then show ?case
    by (simp add: placeBookOnShelf_def writeStock_def writeCall_def logCall_def)
qed

lemmas record_defs =
  getProp_def hasProp_def setProp_def plusOrZero_def objectPrototype_def showInt_def
  showNat.simps digitChar_def

declare showNat.simps [simp del]

lemma countRemoved_error:
  "countRemoved order ls rc = Inl e \<Longrightarrow> e = UnknownBookInOrder"
  by (induction ls arbitrary: rc) (auto split: if_splits)

lemma checkCounts_eq:
  "checkCounts ks rc order =
     (if list_all (\<lambda>b. getProp rc b = getProp order b) ks then Inr () else Inl QuantityMismatch)"
  by (induction ks) simp_all

lemma fulfilOrder_None:
  "orders data orderId = None \<Longrightarrow>
   fulfilOrder data orderId ls = (Inl OrderNotFound, logCall (GetOrderCall orderId) data)"
  by (simp add: fulfilOrder_def getOrder_def)

lemma fulfilOrder_checked:
  assumes "orders data orderId = Some order"
    and "countRemoved order ls [] = Inr rc"
    and "checkCounts (map fst order) rc order = Inr ()"
  shows "fulfilOrder data orderId ls =
     (if \<not> stockSufficient data ls
      then (Inl InsufficientStock,
            data\<lparr>calls := calls data @ GetOrderCall orderId # map readCall ls\<rparr>)
      else (Inr (), fulfilledData data orderId ls))"
proof -
  have nonneg: "stockSufficient data ls \<Longrightarrow>
      list_all (\<lambda>p. 0 \<le> numberOfBooks p) (map (newLine data) ls)"
    by (simp add: stockSufficient_def newLine_def list_all_iff)
  show ?thesis
  proof (cases "stockSufficient data ls")
    case False
    then show ?thesis
      using assms
      by (simp add: fulfilOrder_def getOrder_def processFulfilment_eq logCall_def)
  next
    case True
    then show ?thesis
      using assms
      by (simp add: fulfilOrder_def getOrder_def processFulfilment_eq
          commitFulfilment_eq [OF nonneg] removeOrder_def logCall_def fulfilledData_def)
  qed
qed

lemma fulfilOrder_unknown:
  assumes "orders data orderId = Some order"
    and "countRemoved order ls [] = Inl e"
  shows "fulfilOrder data orderId ls =
           (Inl UnknownBookInOrder, logCall (GetOrderCall orderId) data)"
  using assms countRemoved_error [OF assms(2)]
  by (simp add: fulfilOrder_def getOrder_def)

lemma fulfilOrder_mismatch:
  assumes "orders data orderId = Some order"
    and "countRemoved order ls [] = Inr rc"
    and "checkCounts (map fst order) rc order \<noteq> Inr ()"
  shows "fulfilOrder data orderId ls =
           (Inl QuantityMismatch, logCall (GetOrderCall orderId) data)"
  using assms
  by (simp add: fulfilOrder_def getOrder_def checkCounts_eq split: if_splits)

lemma fulfilOrder_outcomes:
  "fulfilOrder data orderId ls = (Inl OrderNotFound, logCall (GetOrderCall orderId) data) \<or>
   fulfilOrder data orderId ls = (Inl UnknownBookInOrder, logCall (GetOrderCall orderId) data) \<or>
   fulfilOrder data orderId ls = (Inl QuantityMismatch, logCall (GetOrderCall orderId) data) \<or>
   (\<not> stockSufficient data ls \<and>
    fulfilOrder data orderId ls =
      (Inl InsufficientStock,
       data\<lparr>calls := calls data @ GetOrderCall orderId # map readCall ls\<rparr>)) \<or>
   (stockSufficient data ls \<and>
    fulfilOrder data orderId ls = (Inr (), fulfilledData data orderId ls))"
proof (cases "orders data orderId")
  case None
  then show ?thesis by (simp add: fulfilOrder_None)
next
  case (Some order)
  show ?thesis
  proof (cases "countRemoved order ls []")
    case (Inl e)
    from fulfilOrder_unknown [OF Some Inl] show ?thesis by simp
  next
    case (Inr rc)
    show ?thesis
    proof (cases "checkCounts (map fst order) rc order = Inr ()")
      case False
      from fulfilOrder_mismatch [OF Some Inr False] show ?thesis by simp
    next
      case True
      from fulfilOrder_checked [OF Some Inr True] show ?thesis
        by (cases "stockSufficient data ls") simp_all
    qed
  qed
qed

lemma fulfilOrder_failure:
  assumes "fst (fulfilOrder data orderId ls) = Inl e"
  shows "stock (snd (fulfilOrder data orderId ls)) = stock data"
    and "orders (snd (fulfilOrder data orderId ls)) = orders data"
    and "e \<noteq> ValidationError"
    and "\<exists>cs. calls (snd (fulfilOrder data orderId ls)) = calls data @ cs \<and> list_all isReadCall cs"
proof -
  have reads: "list_all isReadCall (map readCall ls)"
    by (simp add: list_all_iff readCall_def)
  show "stock (snd (fulfilOrder data orderId ls)) = stock data"
    using assms fulfilOrder_outcomes [of data orderId ls] by auto
  show "orders (snd (fulfilOrder data orderId ls)) = orders data"
    using assms fulfilOrder_outcomes [of data orderId ls] by auto
  show "e \<noteq> ValidationError"
    using assms fulfilOrder_outcomes [of data orderId ls] by auto
  show "\<exists>cs. calls (snd (fulfilOrder data orderId ls)) = calls data @ cs \<and> list_all isReadCall cs"
    using assms reads fulfilOrder_outcomes [of data orderId ls] by auto
qed

lemma fulfilOrder_success:
  assumes "fst (fulfilOrder data orderId ls) = Inr u"
  shows "stockSufficient data ls"
    and "snd (fulfilOrder data orderId ls) = fulfilledData data orderId ls"
  using assms fulfilOrder_outcomes [of data orderId ls] by auto


lemma proto_not_own: "map_of objectPrototype k = None \<Longrightarrow> k \<noteq> ''__proto__''"
  by (auto simp: objectPrototype_def)

lemma getProp_not_inherited:
  "map_of objectPrototype k = None \<Longrightarrow>
   getProp r k = (case map_of r k of None \<Rightarrow> Undefined | Some v \<Rightarrow> Prim v)"
  by (simp add: getProp_def split: option.splits)

lemma hasProp_not_inherited:
  "map_of objectPrototype k = None \<Longrightarrow> hasProp r k = (map_of r k \<noteq> None)"
  by (simp add: hasProp_def getProp_not_inherited split: option.splits)

lemma setProp_not_inherited:
  "map_of objectPrototype k = None \<Longrightarrow> map_of (setProp r k v) = (map_of r)(k \<mapsto> v)"
  using proto_not_own [of k] by (simp add: setProp_def update_conv')

lemma plusOrZero_numeric:
  "map_of objectPrototype k = None \<Longrightarrow> \<forall>t. map_of r k \<noteq> Some (Str t) \<Longrightarrow>
   plusOrZero n (getProp r k) = Num (n + countOf r k)"
  by (auto simp: getProp_not_inherited plusOrZero_def countOf_def
      split: option.splits primitive.splits)

lemma countRemoved_Inl:
  "notInherited (map book ls) \<Longrightarrow> \<not> linesInOrder order ls \<Longrightarrow>
   countRemoved order ls rc = Inl UnknownBookInOrder"
  by (induction ls arbitrary: rc)
    (auto simp: linesInOrder_def notInherited_def hasProp_not_inherited)

lemma countRemoved_Inr:
  "notInherited (map book ls) \<Longrightarrow> linesInOrder order ls \<Longrightarrow>
   \<forall>b t. map_of rc b \<noteq> Some (Str t) \<Longrightarrow>
   \<exists>rc'. countRemoved order ls rc = Inr rc' \<and>
     (\<forall>b. map_of rc' b =
        (if b \<in> book ` set ls then Some (Num (lineSum ls b + countOf rc b)) else map_of rc b))"
proof (induction ls arbitrary: rc)
  case Nil
  show ?case by simp
next
  case (Cons l ls)
  let ?rc1 = "setProp rc (book l) (plusOrZero (numberOfBooks l) (getProp rc (book l)))"
  from Cons.prems(1) have own: "map_of objectPrototype (book l) = None"
    and owns: "notInherited (map book ls)"
    by (simp_all add: notInherited_def)
  from Cons.prems(2) have inl: "map_of order (book l) \<noteq> None" and rest: "linesInOrder order ls"
    by (simp_all add: linesInOrder_def)
  from Cons.prems(3) have plus: "plusOrZero (numberOfBooks l) (getProp rc (book l)) =
      Num (numberOfBooks l + countOf rc (book l))"
    by (intro plusOrZero_numeric [OF own]) simp
  have rc1: "map_of ?rc1 = (map_of rc)(book l \<mapsto> Num (numberOfBooks l + countOf rc (book l)))"
    by (simp add: setProp_not_inherited [OF own] plus)
  have numeric: "\<forall>b t. map_of ?rc1 b \<noteq> Some (Str t)"
    using Cons.prems(3) by (simp add: rc1)
  from Cons.IH [OF owns rest numeric] obtain rc' where
    run: "countRemoved order ls ?rc1 = Inr rc'" and
    look: "\<And>b. map_of rc' b =
        (if b \<in> book ` set ls then Some (Num (lineSum ls b + countOf ?rc1 b)) else map_of ?rc1 b)"
    by blast
  have c1: "countOf ?rc1 b = (if b = book l then numberOfBooks l + countOf rc b else countOf rc b)"
    for b
    by (simp add: countOf_def rc1)
  have "countRemoved order (l # ls) rc = Inr rc'"
    using inl run by (simp add: hasProp_not_inherited [OF own])
  moreover have "map_of rc' b =
        (if b \<in> book ` set (l # ls)
         then Some (Num (lineSum (l # ls) b + countOf rc b))
         else map_of rc b)" for b
    by (simp add: look c1 rc1 lineSum_unnamed)
  ultimately show ?case by blast
qed

lemma countRemoved_checkCounts:
  assumes "notInherited (map book ls)" and "linesInOrder order ls"
  shows "\<exists>rc. countRemoved order ls [] = Inr rc \<and>
     checkCounts (map fst order) rc order =
       (if countedExactly order ls then Inr () else Inl QuantityMismatch)"
proof -
  from countRemoved_Inr [OF assms, of "[]"] obtain rc where
    run: "countRemoved order ls [] = Inr rc" and
    look: "\<And>b. map_of rc b = (if b \<in> book ` set ls then Some (Num (lineSum ls b)) else None)"
    by (auto simp: countOf_def)
  have "list_all (\<lambda>b. getProp rc b = getProp order b) (map fst order) = countedExactly order ls"
    unfolding countedExactly_def list_all_iff
  proof (intro ball_cong refl)
    fix b assume "b \<in> set (map fst order)"
    then obtain v where v: "map_of order b = Some v"
      by (cases "map_of order b") (simp_all add: map_of_eq_None_iff)
    show "(getProp rc b = getProp order b) =
          (b \<in> book ` set ls \<and> map_of order b = Some (Num (lineSum ls b)))"
      by (auto simp: getProp_def look v split: option.splits)
  qed
  with run show ?thesis by (simp add: checkCounts_eq)
qed

lemma fulfilOrder_Some:
  assumes "orders data orderId = Some order" and "notInherited (map book ls)"
  shows "fulfilOrder data orderId ls =
     (if \<not> linesInOrder order ls
      then (Inl UnknownBookInOrder, logCall (GetOrderCall orderId) data)
      else if \<not> countedExactly order ls
      then (Inl QuantityMismatch, logCall (GetOrderCall orderId) data)
      else if \<not> stockSufficient data ls
      then (Inl InsufficientStock,
            data\<lparr>calls := calls data @ GetOrderCall orderId # map readCall ls\<rparr>)
      else (Inr (), fulfilledData data orderId ls))"
proof (cases "linesInOrder order ls")
  case False
  from countRemoved_Inl [OF assms(2) False, of "[]"] fulfilOrder_unknown [OF assms(1)] False
  show ?thesis by simp
next
  case True
  from countRemoved_checkCounts [OF assms(2) True] obtain rc where
    run: "countRemoved order ls [] = Inr rc" and
    chk: "checkCounts (map fst order) rc order =
       (if countedExactly order ls then Inr () else Inl QuantityMismatch)"
    by blast
  show ?thesis
  proof (cases "countedExactly order ls")
    case False
    with chk have "checkCounts (map fst order) rc order \<noteq> Inr ()" by simp
    from fulfilOrder_mismatch [OF assms(1) run this] True False show ?thesis by simp
  next
    case exact: True
    with chk have "checkCounts (map fst order) rc order = Inr ()" by simp
    from fulfilOrder_checked [OF assms(1) run this] True exact show ?thesis by simp
  qed
qed


lemma tallyBooks_lookup:
  "notInherited bs \<Longrightarrow> \<forall>b t. map_of acc b \<noteq> Some (Str t) \<Longrightarrow>
   map_of (tallyBooks bs acc) b =
     (if b \<in> set bs then Some (Num (int (count_list bs b) + countOf acc b)) else map_of acc b)"
proof (induction bs arbitrary: acc)
  case Nil
  show ?case by simp
next
  case (Cons a bs)
  let ?acc1 = "setProp acc a (plusOrZero 1 (getProp acc a))"
  from Cons.prems(1) have own: "map_of objectPrototype a = None" and owns: "notInherited bs"
    by (simp_all add: notInherited_def)
  from Cons.prems(2) have plus: "plusOrZero 1 (getProp acc a) = Num (1 + countOf acc a)"
    by (intro plusOrZero_numeric [OF own]) simp
  have acc1: "map_of ?acc1 = (map_of acc)(a \<mapsto> Num (1 + countOf acc a))"
    by (simp add: setProp_not_inherited [OF own] plus)
  have numeric: "\<forall>b t. map_of ?acc1 b \<noteq> Some (Str t)"
    using Cons.prems(2) by (simp add: acc1)
  have c1: "countOf ?acc1 c = (if c = a then 1 + countOf acc c else countOf acc c)" for c
    by (simp add: countOf_def acc1)
  show ?case
    by (simp add: Cons.IH [OF owns numeric] c1 acc1)
qed

lemma setProp_distinct: "distinct (map fst r) \<Longrightarrow> distinct (map fst (setProp r k v))"
  by (simp add: setProp_def distinct_update)

lemma tallyBooks_distinct:
  "distinct (map fst acc) \<Longrightarrow> distinct (map fst (tallyBooks bs acc))"
  by (induction bs arbitrary: acc) (simp_all add: setProp_distinct)

lemma placeBooksOnShelf_adds:
  "0 \<le> n \<Longrightarrow> 0 \<le> copiesOnShelf data b s \<Longrightarrow>
   fst (placeBooksOnShelf data b n s) = Inr () \<and>
   copiesOnShelf (snd (placeBooksOnShelf data b n s)) b s = copiesOnShelf data b s + n"
  by (simp add: placeBooksOnShelf_def getCopiesOnShelf_def placeBookOnShelf_def copiesOnShelf_def)

section \<open>Placing books on a shelf\<close>

text \<open>
  Claim C10. For every book, shelf and number: \<^verbatim>\<open>placeBooksOnShelf\<close> with a number below 0
  fails with \<open>ValidationError\<close> before any store read or write, the store (stock, orders and
  the history of calls) being exactly the store it was given. For a number that is at
  least 0 this validation does not fire: the outcome is that of the store's write of
  current + number after the read, and on a shelf whose count is not negative the call
  succeeds after exactly one read and one write.
\<close>

theorem placeBooksOnShelf_negative_rejected:
  "(n < 0 \<longrightarrow> placeBooksOnShelf data b n s = (Inl ValidationError, data)) \<and>
   (0 \<le> n \<longrightarrow>
      placeBooksOnShelf data b n s =
        placeBookOnShelf (logCall (GetCopiesOnShelfCall b s) data) b s (copiesOnShelf data b s + n)) \<and>
   (0 \<le> n \<longrightarrow> 0 \<le> copiesOnShelf data b s \<longrightarrow>
      fst (placeBooksOnShelf data b n s) = Inr () \<and>
      calls (snd (placeBooksOnShelf data b n s)) =
        calls data @ [GetCopiesOnShelfCall b s,
                      PlaceBookOnShelfCall b s (copiesOnShelf data b s + n)])"
  by (simp add: placeBooksOnShelf_def getCopiesOnShelf_def placeBookOnShelf_def)

theorem placeBooksOnShelf_negative_rejected_witness:
  "placeBooksOnShelf emptyWarehouse ''X'' (- 1) ''A'' = (Inl ValidationError, emptyWarehouse) \<and>
   fst (placeBooksOnShelf emptyWarehouse ''X'' 5 ''A'') = Inr () \<and>
   calls (snd (placeBooksOnShelf emptyWarehouse ''X'' 5 ''A'')) =
     [GetCopiesOnShelfCall ''X'' ''A'', PlaceBookOnShelfCall ''X'' ''A'' 5]"
proof -
  have c0: "copiesOnShelf emptyWarehouse ''X'' ''A'' = 0"
    by (simp add: emptyWarehouse_def copiesOnShelf_def)
  have cl: "calls emptyWarehouse = []"
    by (simp add: emptyWarehouse_def)
  have rejected: "placeBooksOnShelf emptyWarehouse ''X'' (- 1) ''A'' = (Inl ValidationError, emptyWarehouse)"
    using placeBooksOnShelf_negative_rejected [of "- 1" emptyWarehouse "''X''" "''A''", THEN conjunct1]
    by simp
  have accepted: "fst (placeBooksOnShelf emptyWarehouse ''X'' 5 ''A'') = Inr () \<and>
      calls (snd (placeBooksOnShelf emptyWarehouse ''X'' 5 ''A'')) =
        [GetCopiesOnShelfCall ''X'' ''A'', PlaceBookOnShelfCall ''X'' ''A'' 5]"
    using placeBooksOnShelf_negative_rejected
            [of 5 emptyWarehouse "''X''" "''A''", THEN conjunct2, THEN conjunct2]
    by (simp add: c0 cl)
  from rejected accepted show ?thesis by simp
qed

text \<open>
  Claim C9. For every book, shelf and quantities n and m that are at least 0, on a shelf
  whose count is not negative: \<^verbatim>\<open>placeBooksOnShelf\<close> with n and then with m both succeed and
  leave the shelf's count for the book at its previous value plus n plus m.
\<close>

theorem placeBooksOnShelf_twice_additive:
  assumes "0 \<le> n" and "0 \<le> m" and "0 \<le> copiesOnShelf data b s"
  shows "fst (placeBooksOnShelf data b n s) = Inr () \<and>
         fst (placeBooksOnShelf (snd (placeBooksOnShelf data b n s)) b m s) = Inr () \<and>
         copiesOnShelf (snd (placeBooksOnShelf (snd (placeBooksOnShelf data b n s)) b m s)) b s =
           copiesOnShelf data b s + n + m"
proof -
  let ?d1 = "snd (placeBooksOnShelf data b n s)"
  from placeBooksOnShelf_adds [OF assms(1) assms(3)]
  have first: "fst (placeBooksOnShelf data b n s) = Inr ()"
    and c1: "copiesOnShelf ?d1 b s = copiesOnShelf data b s + n"
    by simp_all
  from assms c1 have "0 \<le> copiesOnShelf ?d1 b s" by simp
  from placeBooksOnShelf_adds [OF assms(2) this] first c1 show ?thesis by simp
qed

theorem placeBooksOnShelf_twice_additive_witness:
  "(0::int) \<le> 2 \<and> (0::int) \<le> 3 \<and> copiesOnShelf scenarioC ''X'' ''A'' = 2 \<and>
   copiesOnShelf
     (snd (placeBooksOnShelf (snd (placeBooksOnShelf scenarioC ''X'' 2 ''A'')) ''X'' 3 ''A''))
     ''X'' ''A'' = 7"
proof -
  have c: "copiesOnShelf scenarioC ''X'' ''A'' = 2"
    by (simp add: scenarioC_def copiesOnShelf_def)
  have "0 \<le> copiesOnShelf scenarioC ''X'' ''A''" by (simp add: c)
  from placeBooksOnShelf_twice_additive [of 2 3 scenarioC "''X''" "''A''", OF _ _ this] c
  show ?thesis by simp
qed

section \<open>Placing an order\<close>

text \<open>
  For a sequence of book identifiers none of which is a property inherited from
  \<^verbatim>\<open>Object.prototype\<close>, the empty sequence included, \<^verbatim>\<open>placeOrder\<close> returns the generated
  identifier and stores under it an order that maps each book of the sequence to its
  number of occurrences and holds no other book; shelf stock is untouched. Placing
  [X, X, Y] gives the order {X: 2, Y: 1}, and every quantity stored is at least 1.
\<close>

lemma placeOrder_counts_occurrences:
  assumes "notInherited books"
  shows "fst (placeOrder data newId books) = newId \<and>
   orders (snd (placeOrder data newId books)) = (orders data)(newId \<mapsto> tallyBooks books []) \<and>
   stock (snd (placeOrder data newId books)) = stock data \<and>
   map_of (tallyBooks books []) b =
     (if b \<in> set books then Some (Num (int (count_list books b))) else None) \<and>
   distinct (map fst (tallyBooks books []))"
  using tallyBooks_lookup [OF assms, of "[]" b]
  by (simp add: placeOrder_def storePlaceOrder_def tallyBooks_distinct countOf_def)

lemma scenarioB: "tallyBooks [''X'', ''X'', ''Y''] [] = [(''X'', Num 2), (''Y'', Num 1)]"
  by (simp add: getProp_def setProp_def plusOrZero_def objectPrototype_def)

lemma tallyBooks_positive:
  assumes "notInherited bs"
  shows "quantitiesPositive (tallyBooks bs [])"
  unfolding quantitiesPositive_def list_all_iff
proof
  fix bq assume mem: "bq \<in> set (tallyBooks bs [])"
  have "distinct (map fst (tallyBooks bs []))"
    by (simp add: tallyBooks_distinct)
  with mem have stored: "map_of (tallyBooks bs []) (fst bq) = Some (snd bq)"
    using map_of_is_SomeI [of "tallyBooks bs []" "fst bq" "snd bq"] by simp
  have look: "map_of (tallyBooks bs []) (fst bq) =
      (if fst bq \<in> set bs then Some (Num (int (count_list bs (fst bq)))) else None)"
    using tallyBooks_lookup [OF assms, of "[]" "fst bq"] by (simp add: countOf_def)
  from stored look have named: "fst bq \<in> set bs"
    and held: "snd bq = Num (int (count_list bs (fst bq)))"
    by (simp_all split: if_splits)
  from named have "count_list bs (fst bq) \<noteq> 0"
    by (simp add: count_list_0_iff)
  with held show "atLeastOne (snd bq)" by simp
qed

lemma placeOrder_quantitiesPositive:
  "notInherited books \<Longrightarrow>
   orders (snd (placeOrder data newId books)) newId = Some order \<Longrightarrow> quantitiesPositive order"
  using tallyBooks_positive [of books]
  by (auto simp: placeOrder_def storePlaceOrder_def)

text \<open>
  Claim C8. For every sequence of book identifiers \<^verbatim>\<open>placeOrder\<close> is to store the order that
  maps each book to its number of occurrences. The code does not for a book that is the
  name of a property inherited from \<^verbatim>\<open>Object.prototype\<close>: line 88 reads
  \<^verbatim>\<open>order[book]\<close> through the prototype, so \<^verbatim>\<open>?? 0\<close> does not apply and \<^verbatim>\<open>1 +\<close>
  concatenates. Placing [constructor, constructor] stores a string for the book, not 2,
  and placing [__proto__] stores an order with no book at all, not {__proto__: 1}.
\<close>

theorem placeOrder_inherited_names:
  "tallyBooks [''constructor'', ''constructor''] [] =
     [(''constructor'', Str ''11function Object() { [native code] }'')] \<and>
   orders (snd (placeOrder emptyWarehouse ''order1'' [''constructor'', ''constructor''])) ''order1'' =
     Some [(''constructor'', Str ''11function Object() { [native code] }'')] \<and>
   count_list [''constructor'', ''constructor''] ''constructor'' = 2 \<and>
   tallyBooks [''__proto__''] [] = [] \<and>
   orders (snd (placeOrder emptyWarehouse ''order1'' [''__proto__''])) ''order1'' = Some [] \<and>
   count_list [''__proto__''] ''__proto__'' = 1"
  by (simp add: placeOrder_def storePlaceOrder_def record_defs)

section \<open>Fulfilling an order\<close>

lemma countedExactly_quantitiesMatch:
  assumes "quantitiesPositive order"
  shows "countedExactly order ls = quantitiesMatch order ls"
  unfolding countedExactly_def quantitiesMatch_def list_all_iff
proof (intro ball_cong refl)
  fix b assume "b \<in> set (map fst order)"
  show "(b \<in> book ` set ls \<and> map_of order b = Some (Num (lineSum ls b))) =
        (map_of order b = Some (Num (lineSum ls b)))"
  proof (cases "map_of order b = Some (Num (lineSum ls b))")
    case True
    then have "(b, Num (lineSum ls b)) \<in> set order" by (rule map_of_SomeD)
    with assms have "atLeastOne (snd (b, Num (lineSum ls b)))"
      unfolding quantitiesPositive_def list_all_iff by blast
    then have "1 \<le> lineSum ls b" by simp
    then have "b \<in> book ` set ls"
      using lineSum_unnamed [of b ls] by auto
    with True show ?thesis by simp
  next
    case False
    then show ?thesis by simp
  qed
qed

lemma countedExactly_imp_quantitiesMatch:
  "countedExactly order ls \<Longrightarrow> quantitiesMatch order ls"
  by (simp add: countedExactly_def quantitiesMatch_def list_all_iff)

lemma writeStock_Nil [simp]: "writeStock m [] = m"
  by (simp add: writeStock_def)

lemma writeStock_Cons [simp]:
  "writeStock m (p # ps) = writeStock (m((book p, shelf p) \<mapsto> numberOfBooks p)) ps"
  by (simp add: writeStock_def)

lemma writeStock_append:
  "writeStock m (ps @ qs) = writeStock (writeStock m ps) qs"
  by (simp add: writeStock_def)

lemma writeStock_untouched:
  "\<forall>p\<in>set ps. (book p, shelf p) \<noteq> k \<Longrightarrow> writeStock m ps k = m k"
  by (induction ps arbitrary: m) auto

lemma writeStock_last:
  "\<forall>p\<in>set post. (book p, shelf p) \<noteq> (book l, shelf l) \<Longrightarrow>
   writeStock m (pre @ l # post) (book l, shelf l) = Some (numberOfBooks l)"
  by (simp add: writeStock_append writeStock_untouched)

lemma writeStock_nonneg:
  "\<forall>k c. m k = Some c \<longrightarrow> 0 \<le> c \<Longrightarrow> list_all (\<lambda>p. 0 \<le> numberOfBooks p) ps \<Longrightarrow>
   writeStock m ps k = Some c \<Longrightarrow> 0 \<le> c"
proof (induction ps arbitrary: m)
  case Nil
  then show ?case by (simp del: split_paired_All)
next
  case (Cons p ps)
  have "\<forall>k c. (m((book p, shelf p) \<mapsto> numberOfBooks p)) k = Some c \<longrightarrow> 0 \<le> c"
    using Cons.prems(1,2) by (simp del: split_paired_All)
  moreover have "list_all (\<lambda>p. 0 \<le> numberOfBooks p) ps"
    using Cons.prems(2) by simp
  moreover have "writeStock (m((book p, shelf p) \<mapsto> numberOfBooks p)) ps k = Some c"
    using Cons.prems(3) by simp
  ultimately show ?case by (rule Cons.IH)
qed

lemma stockNonNegative_iff:
  "stockNonNegative data = (\<forall>k c. stock data k = Some c \<longrightarrow> 0 \<le> c)"
proof
  assume nn: "stockNonNegative data"
  show "\<forall>k c. stock data k = Some c \<longrightarrow> 0 \<le> c"
  proof (intro allI impI)
    fix k c assume "stock data k = Some c"
    with nn [unfolded stockNonNegative_def, rule_format, of "fst k" "snd k"]
    show "0 \<le> c" by (simp add: copiesOnShelf_def)
  qed
next
  assume "\<forall>k c. stock data k = Some c \<longrightarrow> 0 \<le> c"
  then show "stockNonNegative data"
    by (auto simp: stockNonNegative_def copiesOnShelf_def split: option.splits)
qed

lemma newLine_simps [simp]:
  "book (newLine data l) = book l"
  "shelf (newLine data l) = shelf l"
  "numberOfBooks (newLine data l) = copiesOnShelf data (book l) (shelf l) - numberOfBooks l"
  by (simp_all add: newLine_def)

lemma stockNonNegative_placeBooksOnShelf:
  "stockNonNegative data \<Longrightarrow> stockNonNegative (snd (placeBooksOnShelf data b n s))"
  by (auto simp: stockNonNegative_iff placeBooksOnShelf_def getCopiesOnShelf_def
      placeBookOnShelf_def)

lemma stockNonNegative_fulfilOrder:
  assumes "stockNonNegative data"
  shows "stockNonNegative (snd (fulfilOrder data orderId ls))"
proof (cases "fst (fulfilOrder data orderId ls)")
  case (Inl e)
  from fulfilOrder_failure(1) [OF Inl] assms show ?thesis
    by (simp add: stockNonNegative_iff)
next
  case (Inr u)
  from fulfilOrder_success(1) [OF Inr]
  have nonneg: "list_all (\<lambda>p. 0 \<le> numberOfBooks p) (map (newLine data) ls)"
    by (simp add: stockSufficient_def list_all_iff)
  have "stock (snd (fulfilOrder data orderId ls)) = writeStock (stock data) (map (newLine data) ls)"
    by (simp add: fulfilOrder_success(2) [OF Inr] fulfilledData_def)
  with assms nonneg show ?thesis
    unfolding stockNonNegative_iff
    using writeStock_nonneg [of "stock data" "map (newLine data) ls"] by metis
qed

lemma stockNonNegative_applyOperation:
  "stockNonNegative data \<Longrightarrow> stockNonNegative (snd (applyOperation data operation))"
  by (cases operation)
    (simp_all add: stockNonNegative_placeBooksOnShelf stockNonNegative_fulfilOrder)

lemma stockNonNegative_runOperations:
  "stockNonNegative data \<Longrightarrow> stockNonNegative (runOperations data operations)"
  by (induction operations arbitrary: data) (simp_all add: stockNonNegative_applyOperation)

lemma fulfilOrder_last_line:
  assumes ok: "fst (fulfilOrder data orderId (pre @ l # post)) = Inr u"
    and later: "\<forall>l'\<in>set post. (book l', shelf l') \<noteq> (book l, shelf l)"
  shows "copiesOnShelf (snd (fulfilOrder data orderId (pre @ l # post))) (book l) (shelf l) =
         copiesOnShelf data (book l) (shelf l) - numberOfBooks l"
proof -
  let ?ps = "map (newLine data) pre @ newLine data l # map (newLine data) post"
  have "\<forall>p\<in>set (map (newLine data) post).
          (book p, shelf p) \<noteq> (book (newLine data l), shelf (newLine data l))"
    using later by simp
  from writeStock_last [OF this, of "stock data" "map (newLine data) pre"]
  have "writeStock (stock data) ?ps (book l, shelf l) =
          Some (copiesOnShelf data (book l) (shelf l) - numberOfBooks l)"
    by simp
  then show ?thesis
    by (simp add: fulfilOrder_success(2) [OF ok] fulfilledData_def copiesOnShelf_def)
qed

lemma insufficient_line:
  "l \<in> set ls \<Longrightarrow> copiesOnShelf data (book l) (shelf l) - numberOfBooks l < 0 \<Longrightarrow>
   \<not> stockSufficient data ls"
  unfolding stockSufficient_def list_all_iff by (metis diff_ge_0_iff_ge not_le)

lemma fulfilOrder_insufficient:
  assumes "l \<in> set ls" and "copiesOnShelf data (book l) (shelf l) - numberOfBooks l < 0"
  shows "\<exists>e. fst (fulfilOrder data orderId ls) = Inl e"
proof (cases "fst (fulfilOrder data orderId ls)")
  case (Inl e)
  then show ?thesis by blast
next
  case (Inr u)
  from fulfilOrder_success(1) [OF Inr] insufficient_line [OF assms] show ?thesis by simp
qed

lemma fulfilOrder_distinct_lines:
  assumes ok: "fst (fulfilOrder data orderId ls) = Inr u"
    and dist: "distinct (map (\<lambda>l. (book l, shelf l)) ls)"
    and mem: "l \<in> set ls"
  shows "copiesOnShelf (snd (fulfilOrder data orderId ls)) (book l) (shelf l) =
         copiesOnShelf data (book l) (shelf l) - numberOfBooks l"
proof -
  from mem obtain pre post where split: "ls = pre @ l # post"
    by (auto dest: split_list)
  with dist have "(book l, shelf l) \<notin> (\<lambda>l. (book l, shelf l)) ` set post"
    by simp
  then have "\<forall>l'\<in>set post. (book l', shelf l') \<noteq> (book l, shelf l)"
    by (metis (mono_tags, lifting) image_eqI)
  from fulfilOrder_last_line [OF ok [unfolded split] this] split show ?thesis by simp
qed

lemma halfStocked_fulfil:
  "fulfilOrder (halfStocked k) ''order1'' [fulfilLine ''X'' ''A'' k, fulfilLine ''X'' ''A'' k] =
     (Inr (),
      \<lparr>stock = [(''X'', ''A'') \<mapsto> 0],
       orders = Map.empty(''order1'' := None),
       calls = [GetOrderCall ''order1'', GetCopiesOnShelfCall ''X'' ''A'',
                GetCopiesOnShelfCall ''X'' ''A'', RemoveOrderCall ''order1'',
                PlaceBookOnShelfCall ''X'' ''A'' 0, PlaceBookOnShelfCall ''X'' ''A'' 0]\<rparr>)"
  by (simp add: halfStocked_def fulfilLine_def fulfilOrder_def getOrder_def getCopiesOnShelf_def
      copiesOnShelf_def removeOrder_def placeBookOnShelf_def logCall_def record_defs)

lemma singleOrder_fulfil:
  "fulfilOrder singleOrder ''order1'' [fulfilLine ''X'' ''A'' 2, fulfilLine ''X'' ''B'' (- 1)] =
     (Inr (),
      \<lparr>stock = [(''X'', ''A'') \<mapsto> 0, (''X'', ''B'') \<mapsto> 1],
       orders = Map.empty(''order1'' := None),
       calls = [GetOrderCall ''order1'', GetCopiesOnShelfCall ''X'' ''A'',
                GetCopiesOnShelfCall ''X'' ''B'', RemoveOrderCall ''order1'',
                PlaceBookOnShelfCall ''X'' ''A'' 0, PlaceBookOnShelfCall ''X'' ''B'' 1]\<rparr>)"
  by (simp add: singleOrder_def fulfilLine_def fulfilOrder_def getOrder_def getCopiesOnShelf_def
      copiesOnShelf_def removeOrder_def placeBookOnShelf_def logCall_def record_defs)

subsection \<open>Conservation\<close>




text \<open>
  Why the required quantities are taken to be at least 1: for a book required zero times
  and named by no line, line 119 compares \<^verbatim>\<open>undefined\<close> with 0 and the call fails, although
  the (empty) sum of the lines for that book is 0.
\<close>

lemma zero_quantity_unnamed_book:
  "quantitiesMatch [(''X'', Num 0)] [] \<and>
   fst (fulfilOrder zeroQuantityOrder ''order1'' []) = Inl QuantityMismatch"
  by (simp add: quantitiesMatch_def zeroQuantityOrder_def fulfilOrder_def getOrder_def
      record_defs)

subsection \<open>Failure changes nothing\<close>

text \<open>
  Claim C2. For every store, order identifier and list of lines: when \<^verbatim>\<open>fulfilOrder\<close>
  fails, the error is one of \<open>OrderNotFound\<close>, \<open>UnknownBookInOrder\<close>, \<open>QuantityMismatch\<close>
  and \<open>InsufficientStock\<close>, the Order Store and every shelf count are the same after the
  call as before it, and the store calls made by the failed call are reads only: no
  mutating call is issued before all checks have passed.
\<close>

theorem fulfilOrder_failure_no_mutation:
  assumes "fst (fulfilOrder data orderId ls) = Inl e"
  shows "orders (snd (fulfilOrder data orderId ls)) = orders data \<and>
         stock (snd (fulfilOrder data orderId ls)) = stock data \<and>
         e \<in> {OrderNotFound, UnknownBookInOrder, QuantityMismatch, InsufficientStock} \<and>
         (\<exists>cs. calls (snd (fulfilOrder data orderId ls)) = calls data @ cs \<and>
               list_all isReadCall cs)"
proof -
  from fulfilOrder_failure(3) [OF assms]
  have "e \<in> {OrderNotFound, UnknownBookInOrder, QuantityMismatch, InsufficientStock}"
    by (cases e) simp_all
  with fulfilOrder_failure(1,2,4) [OF assms] show ?thesis by simp
qed

theorem fulfilOrder_failure_no_mutation_witness:
  "fst (fulfilOrder scenarioC ''order1'' [fulfilLine ''X'' ''A'' 1, fulfilLine ''Y'' ''A'' 1]) =
     Inl QuantityMismatch \<and>
   orders (snd (fulfilOrder scenarioC ''order1''
                  [fulfilLine ''X'' ''A'' 1, fulfilLine ''Y'' ''A'' 1])) = orders scenarioC \<and>
   stock (snd (fulfilOrder scenarioC ''order1''
                 [fulfilLine ''X'' ''A'' 1, fulfilLine ''Y'' ''A'' 1])) = stock scenarioC"
proof -
  have failed:
    "fst (fulfilOrder scenarioC ''order1'' [fulfilLine ''X'' ''A'' 1, fulfilLine ''Y'' ''A'' 1]) =
       Inl QuantityMismatch"
    by (simp add: scenarioC_def fulfilLine_def fulfilOrder_def getOrder_def record_defs)
  from fulfilOrder_failure_no_mutation [OF failed] failed show ?thesis by simp
qed

subsection \<open>The order of the checks\<close>

text \<open>
  When no line names a property inherited from \<^verbatim>\<open>Object.prototype\<close>, the checks come in
  the order existence, membership, quantities, stock, and the error reported is that of
  the first check that fails, whatever the later checks would say; a failed call changes
  neither the stock nor the orders.
\<close>

lemma checks_in_order_for_own_names:
  "(orders data orderId = None \<longrightarrow> fst (fulfilOrder data orderId ls) = Inl OrderNotFound) \<and>
   (orders data orderId = Some order \<longrightarrow> notInherited (map book ls) \<longrightarrow>
    \<not> linesInOrder order ls \<longrightarrow>
      fst (fulfilOrder data orderId ls) = Inl UnknownBookInOrder) \<and>
   (orders data orderId = Some order \<longrightarrow> notInherited (map book ls) \<longrightarrow>
    linesInOrder order ls \<longrightarrow> \<not> quantitiesMatch order ls \<longrightarrow>
      fst (fulfilOrder data orderId ls) = Inl QuantityMismatch) \<and>
   (orders data orderId = Some order \<longrightarrow> notInherited (map book ls) \<longrightarrow>
    quantitiesPositive order \<longrightarrow>
    linesInOrder order ls \<longrightarrow> quantitiesMatch order ls \<longrightarrow> \<not> stockSufficient data ls \<longrightarrow>
      fst (fulfilOrder data orderId ls) = Inl InsufficientStock) \<and>
   (fst (fulfilOrder data orderId ls) = Inl e \<longrightarrow>
      stock (snd (fulfilOrder data orderId ls)) = stock data \<and>
      orders (snd (fulfilOrder data orderId ls)) = orders data)"
proof -
  have missing: "fst (fulfilOrder data orderId ls) = Inl OrderNotFound"
    if "orders data orderId = None"
    by (simp add: fulfilOrder_None [OF that])
  have unknown: "fst (fulfilOrder data orderId ls) = Inl UnknownBookInOrder"
    if "orders data orderId = Some order" and "notInherited (map book ls)"
      and "\<not> linesInOrder order ls"
    using that(3) by (simp add: fulfilOrder_Some [OF that(1,2)])
  have mismatch: "fst (fulfilOrder data orderId ls) = Inl QuantityMismatch"
    if "orders data orderId = Some order" and "notInherited (map book ls)"
      and "linesInOrder order ls" and "\<not> quantitiesMatch order ls"
  proof -
    from that(4) have "\<not> countedExactly order ls"
      using countedExactly_imp_quantitiesMatch by blast
    with that(3) show ?thesis by (simp add: fulfilOrder_Some [OF that(1,2)])
  qed
  have insufficient: "fst (fulfilOrder data orderId ls) = Inl InsufficientStock"
    if "orders data orderId = Some order" and "notInherited (map book ls)"
      and "quantitiesPositive order"
      and "linesInOrder order ls" and "quantitiesMatch order ls" and "\<not> stockSufficient data ls"
    using that(4,5,6)
    by (simp add: fulfilOrder_Some [OF that(1,2)] countedExactly_quantitiesMatch [OF that(3)])
  have unchanged: "stock (snd (fulfilOrder data orderId ls)) = stock data \<and>
      orders (snd (fulfilOrder data orderId ls)) = orders data"
    if "fst (fulfilOrder data orderId ls) = Inl e"
    using fulfilOrder_failure(1,2) [OF that] by simp
  from missing unknown mismatch insufficient unchanged show ?thesis by blast
qed

text \<open>
  Claim C7. After the existence of the order, \<^verbatim>\<open>fulfilOrder\<close> is to check that every line
  names a book of the order and to fail with \<open>UnknownBookInOrder\<close> before the quantities
  are compared. The code does not for a line whose book is the name of a property
  inherited from \<^verbatim>\<open>Object.prototype\<close>: \<^verbatim>\<open>book in order\<close> at line 112 is true of it. For the
  order {X: 1} the single line (toString, A, 1), whose book is not in the order, is
  reported as \<open>QuantityMismatch\<close>, and the lines (X, A, 1), (toString, A, 0) are accepted.
\<close>

theorem fulfilOrder_inherited_book:
  "orders singleOrder ''order1'' = Some [(''X'', Num 1)] \<and>
   \<not> linesInOrder [(''X'', Num 1)] [fulfilLine ''toString'' ''A'' 1] \<and>
   fst (fulfilOrder singleOrder ''order1'' [fulfilLine ''toString'' ''A'' 1]) = Inl QuantityMismatch \<and>
   \<not> linesInOrder [(''X'', Num 1)] [fulfilLine ''X'' ''A'' 1, fulfilLine ''toString'' ''A'' 0] \<and>
   fst (fulfilOrder singleOrder ''order1''
          [fulfilLine ''X'' ''A'' 1, fulfilLine ''toString'' ''A'' 0]) = Inr ()"
  by (simp add: singleOrder_def fulfilLine_def linesInOrder_def fulfilOrder_def getOrder_def
      getCopiesOnShelf_def copiesOnShelf_def removeOrder_def placeBookOnShelf_def logCall_def
      record_defs)

subsection \<open>Stock never goes below zero\<close>

text \<open>
  Claim C3. Starting from a store in which no shelf count is negative, after every
  prefix of every sequence of \<^verbatim>\<open>placeBooksOnShelf\<close> and \<^verbatim>\<open>fulfilOrder\<close> operations no shelf
  count is negative; and in every store so reached, a placement that would bring a count
  below zero is rejected with the store unchanged, and a fulfilment with a line that would
  bring its shelf below zero fails with stock and orders unchanged.
\<close>

theorem stock_never_negative:
  assumes "stockNonNegative data"
  shows "stockNonNegative (runOperations data (take k operations)) \<and>
         (copiesOnShelf (runOperations data (take k operations)) b s + n < 0 \<longrightarrow>
            placeBooksOnShelf (runOperations data (take k operations)) b n s =
              (Inl ValidationError, runOperations data (take k operations))) \<and>
         (l \<in> set ls \<longrightarrow>
          copiesOnShelf (runOperations data (take k operations)) (book l) (shelf l)
            - numberOfBooks l < 0 \<longrightarrow>
            (\<exists>e. fst (fulfilOrder (runOperations data (take k operations)) orderId ls) = Inl e) \<and>
            stock (snd (fulfilOrder (runOperations data (take k operations)) orderId ls)) =
              stock (runOperations data (take k operations)) \<and>
            orders (snd (fulfilOrder (runOperations data (take k operations)) orderId ls)) =
              orders (runOperations data (take k operations)))"
proof -
  let ?reached = "runOperations data (take k operations)"
  have reached: "stockNonNegative ?reached"
    using assms by (rule stockNonNegative_runOperations)
  have place: "placeBooksOnShelf ?reached b n s = (Inl ValidationError, ?reached)"
    if "copiesOnShelf ?reached b s + n < 0"
  proof -
    from reached have "0 \<le> copiesOnShelf ?reached b s"
      by (simp add: stockNonNegative_def)
    with that have "n < 0" by simp
    then show ?thesis by (simp add: placeBooksOnShelf_def)
  qed
  have fulfil:
    "(\<exists>e. fst (fulfilOrder ?reached orderId ls) = Inl e) \<and>
     stock (snd (fulfilOrder ?reached orderId ls)) = stock ?reached \<and>
     orders (snd (fulfilOrder ?reached orderId ls)) = orders ?reached"
    if "l \<in> set ls" and "copiesOnShelf ?reached (book l) (shelf l) - numberOfBooks l < 0"
  proof -
    from fulfilOrder_insufficient [OF that] obtain e where
      "fst (fulfilOrder ?reached orderId ls) = Inl e" by blast
    with fulfilOrder_failure(1,2) [OF this] show ?thesis by simp
  qed
  from reached place fulfil show ?thesis by blast
qed

theorem stock_never_negative_witness:
  "stockNonNegative scenarioC \<and>
   stockNonNegative
     (runOperations scenarioC
        (take 2 [PlaceBooksOnShelf ''X'' 3 ''A'',
                 FulfilOrder ''order1'' [fulfilLine ''X'' ''A'' 2, fulfilLine ''Y'' ''A'' 1]])) \<and>
   placeBooksOnShelf scenarioC ''X'' (- 9) ''A'' = (Inl ValidationError, scenarioC) \<and>
   (\<exists>e. fst (fulfilOrder scenarioC ''order1'' [fulfilLine ''X'' ''A'' 3]) = Inl e) \<and>
   stock (snd (fulfilOrder scenarioC ''order1'' [fulfilLine ''X'' ''A'' 3])) = stock scenarioC"
proof -
  have start: "stockNonNegative scenarioC"
    by (simp add: stockNonNegative_iff scenarioC_def)
  have xa: "copiesOnShelf scenarioC ''X'' ''A'' = 2"
    by (simp add: scenarioC_def copiesOnShelf_def)
  have run: "stockNonNegative
     (runOperations scenarioC
        (take 2 [PlaceBooksOnShelf ''X'' 3 ''A'',
                 FulfilOrder ''order1'' [fulfilLine ''X'' ''A'' 2, fulfilLine ''Y'' ''A'' 1]]))"
    using stock_never_negative [OF start, THEN conjunct1] .
  have place: "placeBooksOnShelf scenarioC ''X'' (- 9) ''A'' = (Inl ValidationError, scenarioC)"
    using stock_never_negative
            [OF start, of 0 "[]" "''X''" "''A''" "- 9", THEN conjunct2, THEN conjunct1]
    by (simp add: xa)
  have fulfil:
    "(\<exists>e. fst (fulfilOrder scenarioC ''order1'' [fulfilLine ''X'' ''A'' 3]) = Inl e) \<and>
     stock (snd (fulfilOrder scenarioC ''order1'' [fulfilLine ''X'' ''A'' 3])) = stock scenarioC"
    using stock_never_negative
            [OF start, of 0 "[]" _ _ _ "fulfilLine ''X'' ''A'' 3" "[fulfilLine ''X'' ''A'' 3]"
               "''order1''", THEN conjunct2, THEN conjunct2]
    by (simp add: xa fulfilLine_def)
  from start run place fulfil show ?thesis by simp
qed

subsection \<open>The commit phase\<close>

text \<open>
  Claim C4. After every successful \<^verbatim>\<open>fulfilOrder\<close> the order record is deleted and, for
  each line in turn, the store is asked to set the count of the line's book on the
  line's shelf to the count read before the commit minus the line's quantity; the
  resulting stock is the stock before with these writes applied in order, so that when no
  book and shelf occur in two lines every line's shelf ends at the count read minus the
  line's quantity. In particular, fulfilling the order {X: 2, Y: 1} with the lines
  (X, A, 2) and (Y, A, 1) against shelf A holding {X: 2, Y: 1} succeeds, removes the
  order and leaves shelf A at {X: 0, Y: 0}.
\<close>

theorem fulfilOrder_commit:
  "(fst (fulfilOrder data orderId ls) = Inr () \<longrightarrow>
      orders (snd (fulfilOrder data orderId ls)) = (orders data)(orderId := None) \<and>
      calls (snd (fulfilOrder data orderId ls)) =
        calls data @ GetOrderCall orderId # map readCall ls @ RemoveOrderCall orderId #
          map (\<lambda>l. PlaceBookOnShelfCall (book l) (shelf l)
                     (copiesOnShelf data (book l) (shelf l) - numberOfBooks l)) ls \<and>
      stock (snd (fulfilOrder data orderId ls)) = writeStock (stock data) (map (newLine data) ls) \<and>
      (distinct (map (\<lambda>l. (book l, shelf l)) ls) \<longrightarrow> l \<in> set ls \<longrightarrow>
         copiesOnShelf (snd (fulfilOrder data orderId ls)) (book l) (shelf l) =
           copiesOnShelf data (book l) (shelf l) - numberOfBooks l)) \<and>
   fst (fulfilOrder scenarioC ''order1'' [fulfilLine ''X'' ''A'' 2, fulfilLine ''Y'' ''A'' 1]) = Inr () \<and>
   orders (snd (fulfilOrder scenarioC ''order1''
                  [fulfilLine ''X'' ''A'' 2, fulfilLine ''Y'' ''A'' 1])) ''order1'' = None \<and>
   stock (snd (fulfilOrder scenarioC ''order1''
                 [fulfilLine ''X'' ''A'' 2, fulfilLine ''Y'' ''A'' 1])) =
     [(''X'', ''A'') \<mapsto> 0, (''Y'', ''A'') \<mapsto> 0]"
proof -
  have general: "orders (snd (fulfilOrder data orderId ls)) = (orders data)(orderId := None) \<and>
      calls (snd (fulfilOrder data orderId ls)) =
        calls data @ GetOrderCall orderId # map readCall ls @ RemoveOrderCall orderId #
          map (\<lambda>l. PlaceBookOnShelfCall (book l) (shelf l)
                     (copiesOnShelf data (book l) (shelf l) - numberOfBooks l)) ls \<and>
      stock (snd (fulfilOrder data orderId ls)) = writeStock (stock data) (map (newLine data) ls)"
    if "fst (fulfilOrder data orderId ls) = Inr ()"
    by (simp add: fulfilOrder_success(2) [OF that] fulfilledData_def writeCall_def)
  have lines: "copiesOnShelf (snd (fulfilOrder data orderId ls)) (book l) (shelf l) =
           copiesOnShelf data (book l) (shelf l) - numberOfBooks l"
    if "fst (fulfilOrder data orderId ls) = Inr ()"
      and "distinct (map (\<lambda>l. (book l, shelf l)) ls)" and "l \<in> set ls"
    using that by (rule fulfilOrder_distinct_lines)
  have scenario:
    "fulfilOrder scenarioC ''order1'' [fulfilLine ''X'' ''A'' 2, fulfilLine ''Y'' ''A'' 1] =
       (Inr (),
        \<lparr>stock = [(''X'', ''A'') \<mapsto> 0, (''Y'', ''A'') \<mapsto> 0],
         orders = Map.empty(''order1'' := None),
         calls = [GetOrderCall ''order1'', GetCopiesOnShelfCall ''X'' ''A'',
                  GetCopiesOnShelfCall ''Y'' ''A'', RemoveOrderCall ''order1'',
                  PlaceBookOnShelfCall ''X'' ''A'' 0, PlaceBookOnShelfCall ''Y'' ''A'' 0]\<rparr>)"
    by (simp add: scenarioC_def fulfilLine_def fulfilOrder_def getOrder_def getCopiesOnShelf_def
        copiesOnShelf_def removeOrder_def placeBookOnShelf_def logCall_def record_defs)
  from general lines show ?thesis
    by (simp add: scenario)
qed


theorem fulfilOrder_commit_witness:
  "fst (fulfilOrder scenarioC ''order1'' [fulfilLine ''X'' ''A'' 2, fulfilLine ''Y'' ''A'' 1]) = Inr () \<and>
   distinct (map (\<lambda>l. (book l, shelf l)) [fulfilLine ''X'' ''A'' 2, fulfilLine ''Y'' ''A'' 1]) \<and>
   copiesOnShelf (snd (fulfilOrder scenarioC ''order1''
                         [fulfilLine ''X'' ''A'' 2, fulfilLine ''Y'' ''A'' 1])) ''X'' ''A'' = 0 \<and>
   copiesOnShelf (snd (fulfilOrder scenarioC ''order1''
                         [fulfilLine ''X'' ''A'' 2, fulfilLine ''Y'' ''A'' 1])) ''Y'' ''A'' = 0"
proof -
  let ?ls = "[fulfilLine ''X'' ''A'' 2, fulfilLine ''Y'' ''A'' 1]"
  have ok: "fst (fulfilOrder scenarioC ''order1'' ?ls) = Inr ()"
    using fulfilOrder_commit [THEN conjunct2, THEN conjunct1] .
  have dist: "distinct (map (\<lambda>l. (book l, shelf l)) ?ls)"
    by (simp add: fulfilLine_def)
  have before: "copiesOnShelf scenarioC ''X'' ''A'' = 2" "copiesOnShelf scenarioC ''Y'' ''A'' = 1"
    by (simp_all add: scenarioC_def copiesOnShelf_def)
  have x: "copiesOnShelf (snd (fulfilOrder scenarioC ''order1'' ?ls)) ''X'' ''A'' = 0"
    using fulfilOrder_commit [of scenarioC "''order1''" ?ls "fulfilLine ''X'' ''A'' 2", THEN conjunct1]
      ok dist before
    by (simp add: fulfilLine_def)
  have y: "copiesOnShelf (snd (fulfilOrder scenarioC ''order1'' ?ls)) ''Y'' ''A'' = 0"
    using fulfilOrder_commit [of scenarioC "''order1''" ?ls "fulfilLine ''Y'' ''A'' 1", THEN conjunct1]
      ok dist before
    by (simp add: fulfilLine_def)
  from ok dist x y show ?thesis by simp
qed

text \<open>
  Claim C5. In a successful \<^verbatim>\<open>fulfilOrder\<close>, whatever lines come before it, the last line
  for a book and shelf decides the final count: the count read before the commit minus
  that one line's quantity, not minus the sum of the quantities of the lines for that
  book and shelf. So for every k above 0, an order for 2k copies of X against a shelf A
  holding k copies is fulfilled by two lines of k copies from A each, and shelf A ends at
  0, although the lines sum to 2k, k more than the shelf held.
\<close>

theorem duplicate_lines_last_write_wins:
  "(fst (fulfilOrder data orderId (pre @ l # post)) = Inr () \<longrightarrow>
    list_all (\<lambda>l'. (book l', shelf l') \<noteq> (book l, shelf l)) post \<longrightarrow>
      copiesOnShelf (snd (fulfilOrder data orderId (pre @ l # post))) (book l) (shelf l) =
        copiesOnShelf data (book l) (shelf l) - numberOfBooks l) \<and>
   (0 < k \<longrightarrow>
      orders (halfStocked k) ''order1'' = Some [(''X'', Num (2 * k))] \<and>
      copiesOnShelf (halfStocked k) ''X'' ''A'' = k \<and>
      lineSum [fulfilLine ''X'' ''A'' k, fulfilLine ''X'' ''A'' k] ''X'' = 2 * k \<and>
      fst (fulfilOrder (halfStocked k) ''order1''
             [fulfilLine ''X'' ''A'' k, fulfilLine ''X'' ''A'' k]) = Inr () \<and>
      copiesOnShelf (snd (fulfilOrder (halfStocked k) ''order1''
                            [fulfilLine ''X'' ''A'' k, fulfilLine ''X'' ''A'' k])) ''X'' ''A'' = 0 \<and>
      copiesOnShelf (halfStocked k) ''X'' ''A''
        - lineSum [fulfilLine ''X'' ''A'' k, fulfilLine ''X'' ''A'' k] ''X'' < 0)"
proof -
  have general:
    "copiesOnShelf (snd (fulfilOrder data orderId (pre @ l # post))) (book l) (shelf l) =
       copiesOnShelf data (book l) (shelf l) - numberOfBooks l"
    if "fst (fulfilOrder data orderId (pre @ l # post)) = Inr ()"
      and "list_all (\<lambda>l'. (book l', shelf l') \<noteq> (book l, shelf l)) post"
    using that by (intro fulfilOrder_last_line) (simp_all add: list_all_iff)
  have example:
    "orders (halfStocked k) ''order1'' = Some [(''X'', Num (2 * k))]"
    "copiesOnShelf (halfStocked k) ''X'' ''A'' = k"
    "lineSum [fulfilLine ''X'' ''A'' k, fulfilLine ''X'' ''A'' k] ''X'' = 2 * k"
    by (simp_all add: halfStocked_def copiesOnShelf_def fulfilLine_def)
  from general example show ?thesis
    by (simp add: halfStocked_fulfil copiesOnShelf_def)
qed

theorem duplicate_lines_last_write_wins_witness:
  "fst (fulfilOrder (halfStocked 3) ''order1''
          ([fulfilLine ''X'' ''A'' 3] @ fulfilLine ''X'' ''A'' 3 # [])) = Inr () \<and>
   copiesOnShelf (halfStocked 3) ''X'' ''A'' = 3 \<and>
   copiesOnShelf (snd (fulfilOrder (halfStocked 3) ''order1''
                         ([fulfilLine ''X'' ''A'' 3] @ fulfilLine ''X'' ''A'' 3 # []))) ''X'' ''A'' = 0"
proof -
  have pos: "(0::int) < 3" by simp
  from duplicate_lines_last_write_wins [of _ _ _ _ _ 3, THEN conjunct2, rule_format, OF pos]
  have ok: "fst (fulfilOrder (halfStocked 3) ''order1''
              [fulfilLine ''X'' ''A'' 3, fulfilLine ''X'' ''A'' 3]) = Inr ()"
    and before: "copiesOnShelf (halfStocked 3) ''X'' ''A'' = 3"
    by simp_all
  from duplicate_lines_last_write_wins
         [of "halfStocked 3" "''order1''" "[fulfilLine ''X'' ''A'' 3]" "fulfilLine ''X'' ''A'' 3" "[]",
          THEN conjunct1] ok before
  show ?thesis by (simp add: fulfilLine_def)
qed

text \<open>
  Claim C6. \<^verbatim>\<open>fulfilOrder\<close> does not reject a line whose quantity is negative: the order
  for one X is fulfilled by the lines (X, A, 2) and (X, B, -1), whose signed sum is 1, and
  shelf B goes from 0 copies of X to 1. In general, in a successful call, for a line with
  a negative quantity the store is asked to set the shelf to the count read minus that
  negative quantity, and when no later line names the same book and shelf the shelf's
  count ends above what it was.
\<close>

theorem negative_line_accepted:
  "orders singleOrder ''order1'' = Some [(''X'', Num 1)] \<and>
   lineSum [fulfilLine ''X'' ''A'' 2, fulfilLine ''X'' ''B'' (- 1)] ''X'' = 1 \<and>
   fst (fulfilOrder singleOrder ''order1''
          [fulfilLine ''X'' ''A'' 2, fulfilLine ''X'' ''B'' (- 1)]) = Inr () \<and>
   copiesOnShelf singleOrder ''X'' ''B'' = 0 \<and>
   copiesOnShelf (snd (fulfilOrder singleOrder ''order1''
                         [fulfilLine ''X'' ''A'' 2, fulfilLine ''X'' ''B'' (- 1)])) ''X'' ''B'' = 1 \<and>
   (fst (fulfilOrder data orderId (pre @ l # post)) = Inr () \<longrightarrow>
    numberOfBooks l < 0 \<longrightarrow>
    list_all (\<lambda>l'. (book l', shelf l') \<noteq> (book l, shelf l)) post \<longrightarrow>
      PlaceBookOnShelfCall (book l) (shelf l)
        (copiesOnShelf data (book l) (shelf l) - numberOfBooks l)
        \<in> set (calls (snd (fulfilOrder data orderId (pre @ l # post)))) \<and>
      copiesOnShelf data (book l) (shelf l)
        < copiesOnShelf (snd (fulfilOrder data orderId (pre @ l # post))) (book l) (shelf l))"
proof -
  have example:
    "orders singleOrder ''order1'' = Some [(''X'', Num 1)]"
    "lineSum [fulfilLine ''X'' ''A'' 2, fulfilLine ''X'' ''B'' (- 1)] ''X'' = 1"
    "copiesOnShelf singleOrder ''X'' ''B'' = 0"
    by (simp_all add: singleOrder_def copiesOnShelf_def fulfilLine_def)
  have general:
    "PlaceBookOnShelfCall (book l) (shelf l)
        (copiesOnShelf data (book l) (shelf l) - numberOfBooks l)
        \<in> set (calls (snd (fulfilOrder data orderId (pre @ l # post)))) \<and>
     copiesOnShelf data (book l) (shelf l)
        < copiesOnShelf (snd (fulfilOrder data orderId (pre @ l # post))) (book l) (shelf l)"
    if ok: "fst (fulfilOrder data orderId (pre @ l # post)) = Inr ()"
      and neg: "numberOfBooks l < 0"
      and later: "list_all (\<lambda>l'. (book l', shelf l') \<noteq> (book l, shelf l)) post"
  proof -
    from later have "\<forall>l'\<in>set post. (book l', shelf l') \<noteq> (book l, shelf l)"
      by (simp add: list_all_iff)
    from fulfilOrder_last_line [OF ok this] neg
    have "copiesOnShelf data (book l) (shelf l)
        < copiesOnShelf (snd (fulfilOrder data orderId (pre @ l # post))) (book l) (shelf l)"
      by simp
    moreover have "PlaceBookOnShelfCall (book l) (shelf l)
        (copiesOnShelf data (book l) (shelf l) - numberOfBooks l)
        \<in> set (calls (snd (fulfilOrder data orderId (pre @ l # post))))"
      by (simp add: fulfilOrder_success(2) [OF ok] fulfilledData_def writeCall_def)
    ultimately show ?thesis by simp
  qed
  from example general show ?thesis
    by (simp add: singleOrder_fulfil copiesOnShelf_def)
qed

theorem negative_line_accepted_witness:
  "fst (fulfilOrder singleOrder ''order1''
          ([fulfilLine ''X'' ''A'' 2] @ fulfilLine ''X'' ''B'' (- 1) # [])) = Inr () \<and>
   numberOfBooks (fulfilLine ''X'' ''B'' (- 1)) < 0 \<and>
   copiesOnShelf singleOrder ''X'' ''B''
     < copiesOnShelf (snd (fulfilOrder singleOrder ''order1''
                             ([fulfilLine ''X'' ''A'' 2] @ fulfilLine ''X'' ''B'' (- 1) # [])))
         ''X'' ''B''"
proof -
  have ok: "fst (fulfilOrder singleOrder ''order1''
              ([fulfilLine ''X'' ''A'' 2] @ fulfilLine ''X'' ''B'' (- 1) # [])) = Inr ()"
    using negative_line_accepted [THEN conjunct2, THEN conjunct2, THEN conjunct1] by simp
  have neg: "numberOfBooks (fulfilLine ''X'' ''B'' (- 1)) < 0"
    by (simp add: fulfilLine_def)
  have later: "list_all (\<lambda>l'. (book l', shelf l') \<noteq>
      (book (fulfilLine ''X'' ''B'' (- 1)), shelf (fulfilLine ''X'' ''B'' (- 1)))) []"
    by simp
  from negative_line_accepted
         [of singleOrder "''order1''" "[fulfilLine ''X'' ''A'' 2]" "fulfilLine ''X'' ''B'' (- 1)" "[]",
          THEN conjunct2, THEN conjunct2, THEN conjunct2, THEN conjunct2, THEN conjunct2,
          rule_format, OF ok neg later]
  have "copiesOnShelf singleOrder ''X'' ''B''
     < copiesOnShelf (snd (fulfilOrder singleOrder ''order1''
                             ([fulfilLine ''X'' ''A'' 2] @ fulfilLine ''X'' ''B'' (- 1) # [])))
         ''X'' ''B''"
    by (simp add: fulfilLine_def)
  with ok neg show ?thesis by simp
qed

end
